theory Spec2Isabelle
  imports Main
begin

section \<open>JavaScript values and errors\<close>

text \<open>
  The controller \<^verbatim>\<open>backend/controllers/aiController.js\<close> receives the text of a model
  response and turns it into a JSON value: first \<^verbatim>\<open>JSON.parse(responseText)\<close>, and when
  that throws, \<^verbatim>\<open>JSON.parse\<close> of the match of the regular expression
  \<^verbatim>\<open>/{[\s\S]*}/\<close>. Both handlers that do so (\<^verbatim>\<open>parseInvoiceFromText\<close> and
  \<^verbatim>\<open>getDashboardSummary\<close>) are embedded here from the point where
  \<^verbatim>\<open>responseText\<close> is known.

  A text is a \<^typ>\<open>string\<close>: a list of code units, here the code units below 256. A
  string value produced by \<^verbatim>\<open>JSON.parse\<close> is a list of UTF-16 code units given as
  natural numbers, since an escape \<^verbatim>\<open>\uXXXX\<close> can denote any of them.
\<close>

type_synonym jstring = "nat list"

definition js :: "string \<Rightarrow> jstring" where
  "js s = map of_char s"

text \<open>
  A number keeps the text of its literal; the conversion to an IEEE double is not modelled.
  An object is the list of its properties in creation order.
\<close>

datatype json =
    JNull
  | JBool bool
  | JNumber string
  | JString jstring
  | JArray "json list"
  | JObject "(jstring \<times> json) list"

text \<open>
  What a \<^verbatim>\<open>throw\<close> carries: the \<^verbatim>\<open>SyntaxError\<close> of \<^verbatim>\<open>JSON.parse\<close> (its message
  is the engine's own and is left out), or \<^verbatim>\<open>new Error(message)\<close>. A computation that may
  throw has the type \<open>js_error + 'a\<close>, the thrown value to the left.
\<close>

datatype js_error = SyntaxError | Error string

definition try_catch :: "js_error + 'a \<Rightarrow> (js_error \<Rightarrow> js_error + 'a) \<Rightarrow> js_error + 'a" where
  "try_catch block handler = (case block of Inr v \<Rightarrow> Inr v | Inl e \<Rightarrow> handler e)"

section \<open>\<^verbatim>\<open>JSON.parse\<close>\<close>

text \<open>
  \<^verbatim>\<open>JSON.parse\<close> is the language's own function. It is given here by the JSON grammar of
  ECMA-404, as ECMAScript applies it: a lexer from code units to tokens and a
  recursive-descent parser on the tokens. White space is tab, line feed, carriage return and
  space, and nothing else.
\<close>

datatype token =
    LBrace | RBrace | LBracket | RBracket | Colon | Comma
  | TString jstring | TNumber string | TTrue | TFalse | TNull

definition is_json_ws :: "char \<Rightarrow> bool" where
  "is_json_ws c \<longleftrightarrow> c = CHR 0x09 \<or> c = CHR 0x0A \<or> c = CHR 0x0D \<or> c = CHR 0x20"

definition is_digit :: "char \<Rightarrow> bool" where
  "is_digit c \<longleftrightarrow> c \<in> set ''0123456789''"

definition hex_digit :: "char \<Rightarrow> nat option" where
  "hex_digit c = map_of (zip ''0123456789abcdef'' [0 ..< 16] @ zip ''ABCDEF'' [10 ..< 16]) c"

definition hex4 :: "char \<Rightarrow> char \<Rightarrow> char \<Rightarrow> char \<Rightarrow> nat option" where
  "hex4 a b c d =
     (case (hex_digit a, hex_digit b, hex_digit c, hex_digit d) of
        (Some x, Some y, Some z, Some w) \<Rightarrow> Some (((x * 16 + y) * 16 + z) * 16 + w)
      | _ \<Rightarrow> None)"

definition unescape :: "char \<Rightarrow> nat option" where
  "unescape e =
     map_of [(CHR 0x22, 0x22), (CHR 0x5C, 0x5C), (CHR ''/'', 0x2F), (CHR ''b'', 0x08),
             (CHR ''f'', 0x0C), (CHR ''n'', 0x0A), (CHR ''r'', 0x0D), (CHR ''t'', 0x09)] e"

definition prepend :: "'a \<Rightarrow> ('a list \<times> 'b) option \<Rightarrow> ('a list \<times> 'b) option" where
  "prepend x r = map_option (\<lambda>(xs, rest). (x # xs, rest)) r"

fun lex_chars :: "string \<Rightarrow> (jstring \<times> string) option" where
  "lex_chars [] = None"
| "lex_chars (c # cs) =
     (if c = CHR 0x22 then Some ([], cs)
      else if c = CHR 0x5C then
        (case cs of
           [] \<Rightarrow> None
         | e # r \<Rightarrow>
             if e = CHR ''u'' then
               (case r of
                  h1 # h2 # h3 # h4 # r' \<Rightarrow>
                    (case hex4 h1 h2 h3 h4 of
                       None \<Rightarrow> None
                     | Some u \<Rightarrow> prepend u (lex_chars r'))
                | _ \<Rightarrow> None)
             else
               (case unescape e of
                  None \<Rightarrow> None
                | Some u \<Rightarrow> prepend u (lex_chars r)))
      else if (of_char c :: nat) < 0x20 then None
      else prepend (of_char c) (lex_chars cs))"

definition lex_int :: "string \<Rightarrow> (string \<times> string) option" where
  "lex_int s =
     (case s of
        [] \<Rightarrow> None
      | c # cs \<Rightarrow>
          if c = CHR ''0'' then Some ([c], cs)
          else if is_digit c then Some (c # takeWhile is_digit cs, dropWhile is_digit cs)
          else None)"

definition lex_digits1 :: "string \<Rightarrow> (string \<times> string) option" where
  "lex_digits1 s =
     (if takeWhile is_digit s = [] then None
      else Some (takeWhile is_digit s, dropWhile is_digit s))"

definition lex_frac :: "string \<Rightarrow> (string \<times> string) option" where
  "lex_frac s =
     (case s of
        c # cs \<Rightarrow>
          if c = CHR ''.'' then map_option (\<lambda>(ds, rest). (c # ds, rest)) (lex_digits1 cs)
          else Some ([], s)
      | [] \<Rightarrow> Some ([], s))"

definition lex_sign :: "string \<Rightarrow> string \<times> string" where
  "lex_sign s =
     (case s of
        c # cs \<Rightarrow> if c = CHR ''+'' \<or> c = CHR ''-'' then ([c], cs) else ([], s)
      | [] \<Rightarrow> ([], s))"

definition lex_exp :: "string \<Rightarrow> (string \<times> string) option" where
  "lex_exp s =
     (case s of
        c # cs \<Rightarrow>
          if c = CHR ''e'' \<or> c = CHR ''E'' then
            (case lex_sign cs of
               (sg, cs') \<Rightarrow> map_option (\<lambda>(ds, rest). (c # sg @ ds, rest)) (lex_digits1 cs'))
          else Some ([], s)
      | [] \<Rightarrow> Some ([], s))"

definition lex_minus :: "string \<Rightarrow> string \<times> string" where
  "lex_minus s =
     (case s of
        c # cs \<Rightarrow> if c = CHR ''-'' then ([c], cs) else ([], s)
      | [] \<Rightarrow> ([], s))"

definition lex_number :: "string \<Rightarrow> (string \<times> string) option" where
  "lex_number s =
     (case lex_minus s of
        (m, s1) \<Rightarrow>
          (case lex_int s1 of
             None \<Rightarrow> None
           | Some (i, s2) \<Rightarrow>
               (case lex_frac s2 of
                  None \<Rightarrow> None
                | Some (f, s3) \<Rightarrow>
                    (case lex_exp s3 of
                       None \<Rightarrow> None
                     | Some (e, s4) \<Rightarrow> Some (m @ i @ f @ e, s4)))))"

lemma prepend_Some: "prepend x r = Some (ys, rest) \<Longrightarrow> \<exists>xs. r = Some (xs, rest)"
  by (auto simp: prepend_def)

lemma lex_chars_length: "lex_chars s = Some (us, rest) \<Longrightarrow> length rest < length s"
proof (induction s arbitrary: us rule: lex_chars.induct)
  case 1
  then show ?case by simp
next
  case (2 c cs)
  then show ?case
    by (fastforce split: if_splits list.splits option.splits dest!: prepend_Some)
qed

lemma lex_digits1_length: "lex_digits1 s = Some (ds, rest) \<Longrightarrow> length rest \<le> length s"
  by (auto simp: lex_digits1_def length_dropWhile_le split: if_splits)

lemma lex_int_length: "lex_int s = Some (ds, rest) \<Longrightarrow> length rest < length s"
  by (auto simp: lex_int_def length_dropWhile_le less_Suc_eq_le split: list.splits if_splits)

lemma lex_frac_length: "lex_frac s = Some (ds, rest) \<Longrightarrow> length rest \<le> length s"
  by (auto simp: lex_frac_def split: list.splits if_splits dest!: lex_digits1_length)

lemma lex_sign_length: "lex_sign s = (sg, rest) \<Longrightarrow> length rest \<le> length s"
  by (auto simp: lex_sign_def split: list.splits if_splits)

lemma lex_minus_length: "lex_minus s = (sg, rest) \<Longrightarrow> length rest \<le> length s"
  by (auto simp: lex_minus_def split: list.splits if_splits)

lemma lex_exp_length: "lex_exp s = Some (ds, rest) \<Longrightarrow> length rest \<le> length s"
  by (auto simp: lex_exp_def split: list.splits if_splits prod.splits
           dest!: lex_digits1_length lex_sign_length)

lemma lex_number_length:
  assumes "lex_number s = Some (lexeme, rest)"
  shows "length rest < length s"
proof -
  from assms obtain m s1 i s2 f s3 e where
    a: "lex_minus s = (m, s1)" and b: "lex_int s1 = Some (i, s2)"
    and c: "lex_frac s2 = Some (f, s3)" and d: "lex_exp s3 = Some (e, rest)"
    by (auto simp: lex_number_def split: prod.splits option.splits)
  from lex_minus_length[OF a] lex_int_length[OF b] lex_frac_length[OF c] lex_exp_length[OF d]
  show ?thesis by linarith
qed

definition keyword :: "string \<Rightarrow> string \<Rightarrow> string option" where
  "keyword w s = (if take (length w) s = w then Some (drop (length w) s) else None)"

definition punctuator :: "char \<Rightarrow> token option" where
  "punctuator c =
     map_of [(CHR ''{'', LBrace), (CHR ''}'', RBrace), (CHR ''['', LBracket),
             (CHR '']'', RBracket), (CHR '':'', Colon), (CHR '','', Comma)] c"

definition next_token :: "string \<Rightarrow> (token \<times> string) option" where
  "next_token s =
     (case s of
        [] \<Rightarrow> None
      | c # cs \<Rightarrow>
          (case punctuator c of
             Some t \<Rightarrow> Some (t, cs)
           | None \<Rightarrow>
               if c = CHR 0x22 then map_option (\<lambda>(us, rest). (TString us, rest)) (lex_chars cs)
               else if c = CHR ''-'' \<or> is_digit c then
                 map_option (\<lambda>(lexeme, rest). (TNumber lexeme, rest)) (lex_number s)
               else if c = CHR ''t'' then map_option (Pair TTrue) (keyword ''rue'' cs)
               else if c = CHR ''f'' then map_option (Pair TFalse) (keyword ''alse'' cs)
               else if c = CHR ''n'' then map_option (Pair TNull) (keyword ''ull'' cs)
               else None))"

lemma keyword_length: "keyword w s = Some rest \<Longrightarrow> length rest \<le> length s"
  by (auto simp: keyword_def split: if_splits)

lemma next_token_length:
  assumes "next_token s = Some (t, rest)"
  shows "length rest < length s"
proof (cases s)
  case Nil
  with assms show ?thesis by (simp add: next_token_def)
next
  case (Cons c cs)
  show ?thesis
  proof (cases "punctuator c")
    case (Some p)
    with assms Cons show ?thesis by (simp add: next_token_def)
  next
    case None
    with assms Cons consider
        us where "lex_chars cs = Some (us, rest)"
      | lexeme where "lex_number s = Some (lexeme, rest)"
      | w where "keyword w cs = Some rest"
      by (auto simp: next_token_def split: if_splits)
    then show ?thesis
    proof cases
      case 1
      from lex_chars_length[OF 1] Cons show ?thesis by simp
    next
      case 2
      from lex_number_length[OF 2] show ?thesis .
    next
      case 3
      from keyword_length[OF 3] Cons show ?thesis by simp
    qed
  qed
qed

function tokenize :: "string \<Rightarrow> token list option" where
  "tokenize [] = Some []"
| "tokenize (c # cs) =
     (if is_json_ws c then tokenize cs
      else
        (case next_token (c # cs) of
           None \<Rightarrow> None
         | Some (t, rest) \<Rightarrow> map_option (Cons t) (tokenize rest)))"
  by pat_completeness auto
termination
proof (relation "measure length")
  fix c cs x t rest
  assume "next_token (c # cs) = Some x" "(t, rest) = x"
  then have "next_token (c # cs) = Some (t, rest)" by simp
  from next_token_length[OF this] show "(rest, c # cs) \<in> measure length" by simp
qed simp_all

text \<open>
  An object literal creates its properties from left to right; a key that occurs again
  replaces the value of the property already there. (The order in which an engine later
  enumerates integer-like keys is not modelled.)
\<close>

fun put_property :: "jstring \<Rightarrow> json \<Rightarrow> (jstring \<times> json) list \<Rightarrow> (jstring \<times> json) list" where
  "put_property k v [] = [(k, v)]"
| "put_property k v ((k', v') # ps) =
     (if k' = k then (k, v) # ps else (k', v') # put_property k v ps)"

definition make_object :: "(jstring \<times> json) list \<Rightarrow> json" where
  "make_object kvs = JObject (foldl (\<lambda>ps (k, v). put_property k v ps) [] kvs)"

function (sequential) parse_value :: "token list \<Rightarrow> (json \<times> token list) option"
  and parse_elements :: "token list \<Rightarrow> (json list \<times> token list) option"
  and parse_members :: "token list \<Rightarrow> ((jstring \<times> json) list \<times> token list) option"
where
  "parse_value [] = None"
| "parse_value (TNull # r) = Some (JNull, r)"
| "parse_value (TTrue # r) = Some (JBool True, r)"
| "parse_value (TFalse # r) = Some (JBool False, r)"
| "parse_value (TNumber n # r) = Some (JNumber n, r)"
| "parse_value (TString s # r) = Some (JString s, r)"
| "parse_value (LBracket # RBracket # r) = Some (JArray [], r)"
| "parse_value (LBracket # r) = map_option (\<lambda>(vs, r'). (JArray vs, r')) (parse_elements r)"
| "parse_value (LBrace # RBrace # r) = Some (JObject [], r)"
| "parse_value (LBrace # r) = map_option (\<lambda>(kvs, r'). (make_object kvs, r')) (parse_members r)"
| "parse_value (_ # r) = None"
| "parse_elements ts =
     (case parse_value ts of
        None \<Rightarrow> None
      | Some (v, r) \<Rightarrow>
          (case r of
             Comma # r' \<Rightarrow> prepend v (parse_elements r')
           | RBracket # r' \<Rightarrow> Some ([v], r')
           | _ \<Rightarrow> None))"
| "parse_members (TString k # Colon # ts) =
     (case parse_value ts of
        None \<Rightarrow> None
      | Some (v, r) \<Rightarrow>
          (case r of
             Comma # r' \<Rightarrow> prepend (k, v) (parse_members r')
           | RBrace # r' \<Rightarrow> Some ([(k, v)], r')
           | _ \<Rightarrow> None))"
| "parse_members _ = None"
  by pat_completeness auto
termination
proof -
  have shorter:
    "parse_value_parse_elements_parse_members_dom (Inl ts) \<Longrightarrow>
       \<forall>v r. parse_value ts = Some (v, r) \<longrightarrow> length r < length ts"
    "parse_value_parse_elements_parse_members_dom (Inr (Inl ts1)) \<Longrightarrow>
       \<forall>vs r. parse_elements ts1 = Some (vs, r) \<longrightarrow> length r < length ts1"
    "parse_value_parse_elements_parse_members_dom (Inr (Inr ts2)) \<Longrightarrow>
       \<forall>kvs r. parse_members ts2 = Some (kvs, r) \<longrightarrow> length r < length ts2"
    for ts ts1 ts2
  proof (induction ts and ts1 and ts2 rule: parse_value_parse_elements_parse_members.pinduct)
  qed (auto simp: parse_value.psimps parse_elements.psimps parse_members.psimps prepend_def
            split: option.splits list.splits token.splits prod.splits, fastforce+)
  show ?thesis
    by (relation "measure (\<lambda>x. case x of Inl ts \<Rightarrow> 2 * length ts
                                      | Inr (Inl ts) \<Rightarrow> 2 * length ts + 1
                                      | Inr (Inr ts) \<Rightarrow> 2 * length ts + 1)")
       (auto dest!: shorter(1))
qed

definition JSON_parse :: "string \<Rightarrow> js_error + json" where
  "JSON_parse text =
     (case tokenize text of
        None \<Rightarrow> Inl SyntaxError
      | Some ts \<Rightarrow>
          (case parse_value ts of
             Some (v, []) \<Rightarrow> Inr v
           | _ \<Rightarrow> Inl SyntaxError))"

section \<open>The regular expression \<^verbatim>\<open>/{[\s\S]*}/\<close>\<close>

text \<open>
  \<^verbatim>\<open>responseText.match(/{[\s\S]*}/)\<close> has no flag, so it returns the first match of
  the pattern, or \<^verbatim>\<open>null\<close>. The matcher is the backtracking one of the language:
  start positions are tried from left to right; at a start position the pattern wants the
  character \<^verbatim>\<open>{\<close>, then the greedy star takes one more character of the class whenever
  the rest of the pattern still matches after it, and only otherwise stops and wants
  \<^verbatim>\<open>}\<close>. The class \<^verbatim>\<open>[\s\S]\<close> is the union of \<^verbatim>\<open>\s\<close> (of which the code
  units below 256 are listed in \<open>is_space\<close>) and its complement.
\<close>

definition is_space :: "char \<Rightarrow> bool" where
  "is_space c \<longleftrightarrow> c \<in> set [CHR 0x09, CHR 0x0A, CHR 0x0B, CHR 0x0C, CHR 0x0D, CHR 0x20, CHR 0xA0]"

definition space_or_not_space :: "char \<Rightarrow> bool" where
  "space_or_not_space c \<longleftrightarrow> is_space c \<or> \<not> is_space c"

fun star_then_close :: "string \<Rightarrow> string option" where
  "star_then_close [] = None"
| "star_then_close (c # cs) =
     (case (if space_or_not_space c then star_then_close cs else None) of
        Some m \<Rightarrow> Some (c # m)
      | None \<Rightarrow> if c = CHR ''}'' then Some [c] else None)"

fun match_here :: "string \<Rightarrow> string option" where
  "match_here [] = None"
| "match_here (c # cs) =
     (if c = CHR ''{'' then map_option (Cons c) (star_then_close cs) else None)"

fun regex_match :: "string \<Rightarrow> string option" where
  "regex_match [] = None"
| "regex_match (c # cs) =
     (case match_here (c # cs) of
        Some m \<Rightarrow> Some m
      | None \<Rightarrow> regex_match cs)"

section \<open>The span of the specification\<close>

text \<open>
  The specification describes the recovery in its own words: the substring from the first
  \<^verbatim>\<open>{\<close> of the text to its last \<^verbatim>\<open>}\<close>, both included. These definitions follow
  those words, not the code: \<open>first_open\<close> is \<^verbatim>\<open>text.indexOf("{")\<close> (the length of the
  text when there is none), \<open>last_close\<close> is \<^verbatim>\<open>text.lastIndexOf("}")\<close>, \<open>substring\<close> is
  \<^verbatim>\<open>text.substring(i, j)\<close> for \<open>i \<le> j\<close>, and a text has a span when some \<^verbatim>\<open>{\<close> is
  followed later by a \<^verbatim>\<open>}\<close>.
\<close>

definition first_open :: "string \<Rightarrow> nat" where
  "first_open s = length (takeWhile (\<lambda>c. c \<noteq> CHR ''{'') s)"

definition last_close :: "string \<Rightarrow> nat" where
  "last_close s = length s - Suc (length (takeWhile (\<lambda>c. c \<noteq> CHR ''}'') (rev s)))"

definition substring :: "string \<Rightarrow> nat \<Rightarrow> nat \<Rightarrow> string" where
  "substring s i j = take (j - i) (drop i s)"

definition extraction_span :: "string \<Rightarrow> string" where
  "extraction_span s = substring s (first_open s) (Suc (last_close s))"

definition has_span :: "string \<Rightarrow> bool" where
  "has_span s \<longleftrightarrow> (\<exists>i j. i < j \<and> j < length s \<and> s ! i = CHR ''{'' \<and> s ! j = CHR ''}'')"

text \<open>
  The wording of claim C9: every \<^verbatim>\<open>}\<close> of the text occurs strictly before its first
  \<^verbatim>\<open>{\<close>.
\<close>

definition every_close_before_first_open :: "string \<Rightarrow> bool" where
  "every_close_before_first_open s \<longleftrightarrow>
     (\<forall>j<length s. s ! j = CHR ''}'' \<longrightarrow> j < first_open s)"

section \<open>The two handlers\<close>

text \<open>
  \<^verbatim>\<open>parseInvoiceFromText\<close>, lines 55 to 62: the value of \<^verbatim>\<open>parsedData\<close>, or what the
  block throws. The two failures of the recovery are two different thrown values: the
  \<^verbatim>\<open>Error\<close> of line 60 when there is no match, and the \<^verbatim>\<open>SyntaxError\<close> of the
  second \<^verbatim>\<open>JSON.parse\<close> when the match is not JSON.
\<close>

definition NoJsonFound :: js_error where
  "NoJsonFound = Error ''No valid JSON found in AI response.''"

definition MalformedJson :: js_error where
  "MalformedJson = SyntaxError"

definition parseInvoiceFromText_parsedData :: "string \<Rightarrow> js_error + json" where
  "parseInvoiceFromText_parsedData responseText =
     try_catch (JSON_parse responseText)
       (\<lambda>_. case regex_match responseText of
               None \<Rightarrow> Inl (Error ''No valid JSON found in AI response.'')
             | Some m \<Rightarrow> JSON_parse m)"

text \<open>
  The response a handler sends: \<^verbatim>\<open>res.status(n).json(body)\<close>. The body is the parsed
  value, or the object \<^verbatim>\<open>{ message, details: error.message }\<close> of a \<^verbatim>\<open>catch\<close>.
\<close>

datatype body = Parsed json | Failed string js_error

record response =
  status :: nat
  body :: body

text \<open>
  \<^verbatim>\<open>parseInvoiceFromText\<close> from line 55 to its end: the block above inside the
  \<^verbatim>\<open>try\<close> of line 13, whose \<^verbatim>\<open>catch\<close> (line 65) answers 500.
\<close>

definition parseInvoiceFromText :: "string \<Rightarrow> js_error + response" where
  "parseInvoiceFromText responseText =
     try_catch
       (case parseInvoiceFromText_parsedData responseText of
          Inl e \<Rightarrow> Inl e
        | Inr parsedData \<Rightarrow> Inr \<lparr>status = 200, body = Parsed parsedData\<rparr>)
       (\<lambda>error. Inr \<lparr>status = 500,
                      body = Failed ''Failed to parse invoice data from text.'' error\<rparr>)"

text \<open>
  \<^verbatim>\<open>getDashboardSummary\<close>, lines 184 to 200: here the recovery has its own
  \<^verbatim>\<open>try\<close>, and both failures assign a placeholder to \<^verbatim>\<open>parsedData\<close>.
\<close>

definition insights :: "string \<Rightarrow> json" where
  "insights line = JObject [(js ''insights'', JArray [JString (js line)])]"

definition getDashboardSummary_parsedData :: "string \<Rightarrow> js_error + json" where
  "getDashboardSummary_parsedData responseText =
     try_catch (JSON_parse responseText)
       (\<lambda>_. case regex_match responseText of
               Some m \<Rightarrow>
                 try_catch (JSON_parse m)
                   (\<lambda>jsonError. Inr (insights ''AI returned invalid JSON format. Please retry.''))
             | None \<Rightarrow> Inr (insights ''Unable to generate insights from data.''))"

definition getDashboardSummary :: "string \<Rightarrow> js_error + response" where
  "getDashboardSummary responseText =
     try_catch
       (case getDashboardSummary_parsedData responseText of
          Inl e \<Rightarrow> Inl e
        | Inr parsedData \<Rightarrow> Inr \<lparr>status = 200, body = Parsed parsedData\<rparr>)
       (\<lambda>error. Inr \<lparr>status = 500,
                      body = Failed ''Failed to generate dashboard insights.'' error\<rparr>)"

section \<open>The match of the regular expression\<close>

lemma space_or_not_space_any [simp]: "space_or_not_space c"
  by (simp add: space_or_not_space_def)

lemma star_then_close_None: "CHR ''}'' \<notin> set cs \<Longrightarrow> star_then_close cs = None"
  by (induction cs) auto

lemma takeWhile_less:
  "x \<in> set xs \<Longrightarrow> \<not> P x \<Longrightarrow> length (takeWhile P xs) < length xs"
  by (induction xs) auto

lemma takeWhile_rev_less:
  "x \<in> set cs \<Longrightarrow> \<not> P x \<Longrightarrow> length (takeWhile P (rev cs)) < length cs"
  using takeWhile_less[of x "rev cs" P] by simp

lemma last_close_append:
  assumes "CHR ''}'' \<in> set ys"
  shows "last_close (xs @ ys) = length xs + last_close ys"
proof -
  let ?P = "\<lambda>c. c \<noteq> CHR ''}''"
  from assms have "\<exists>x\<in>set (rev ys). \<not> ?P x" by auto
  then have "takeWhile ?P (rev ys @ rev xs) = takeWhile ?P (rev ys)"
    by (auto intro: takeWhile_append1)
  moreover from assms have "length (takeWhile ?P (rev ys)) < length ys"
    by (rule takeWhile_rev_less) simp
  ultimately show ?thesis by (simp add: last_close_def)
qed

lemma last_close_only_head:
  assumes "CHR ''}'' \<notin> set cs"
  shows "last_close (CHR ''}'' # cs) = 0"
proof -
  from assms have "\<forall>x\<in>set (rev cs). x \<noteq> CHR ''}''" by auto
  then have "takeWhile (\<lambda>c. c \<noteq> CHR ''}'') (rev cs @ [CHR ''}'']) = rev cs"
    using takeWhile_append2[of "rev cs" "\<lambda>c. c \<noteq> CHR ''}''" "[CHR ''}'']"] by auto
  then show ?thesis by (simp add: last_close_def)
qed

lemma star_then_close_Some:
  "CHR ''}'' \<in> set cs \<Longrightarrow> star_then_close cs = Some (take (Suc (last_close cs)) cs)"
proof (induction cs)
  case Nil
  then show ?case by simp
next
  case (Cons c cs)
  show ?case
  proof (cases "CHR ''}'' \<in> set cs")
    case True
    from last_close_append[OF True, of "[c]"] have "last_close (c # cs) = Suc (last_close cs)"
      by simp
    with Cons.IH[OF True] show ?thesis by simp
  next
    case False
    with Cons.prems have c: "c = CHR ''}''" by simp
    from False show ?thesis
      by (simp add: star_then_close_None c last_close_only_head)
  qed
qed

lemma regex_match_no_close: "CHR ''}'' \<notin> set cs \<Longrightarrow> regex_match cs = None"
  by (induction cs) (auto simp: star_then_close_None)

lemma regex_match_dropWhile:
  "regex_match s =
     (case dropWhile (\<lambda>c. c \<noteq> CHR ''{'') s of
        [] \<Rightarrow> None
      | c # cs \<Rightarrow> map_option (Cons c) (star_then_close cs))"
proof (induction s)
  case Nil
  show ?case by simp
next
  case (Cons c cs)
  show ?case
  proof (cases "c = CHR ''{''")
    case False
    with Cons.IH show ?thesis by simp
  next
    case True
    show ?thesis
    proof (cases "CHR ''}'' \<in> set cs")
      case True
      with \<open>c = CHR ''{''\<close> show ?thesis by (simp add: star_then_close_Some)
    next
      case False
      with \<open>c = CHR ''{''\<close> show ?thesis
        by (simp add: star_then_close_None regex_match_no_close)
    qed
  qed
qed

lemma takeWhile_prefix_holds:
  assumes "k < length (takeWhile P xs)"
  shows "P (xs ! k)"
proof -
  from assms have "takeWhile P xs ! k \<in> set (takeWhile P xs)" by (rule nth_mem)
  moreover from assms have "takeWhile P xs ! k = xs ! k" by (rule takeWhile_nth)
  ultimately show ?thesis by (auto dest: set_takeWhileD)
qed

lemma first_open_Cons:
  "first_open (c # cs) = (if c = CHR ''{'' then 0 else Suc (first_open cs))"
  by (simp add: first_open_def)

lemma first_open_le: "i < length s \<Longrightarrow> s ! i = CHR ''{'' \<Longrightarrow> first_open s \<le> i"
proof (induction s arbitrary: i)
  case Nil
  then show ?case by simp
next
  case (Cons c cs)
  then show ?case by (cases i) (auto simp: first_open_Cons)
qed

lemma first_open_least: "k < first_open s \<Longrightarrow> s ! k \<noteq> CHR ''{''"
proof (induction s arbitrary: k)
  case Nil
  then show ?case by (simp add: first_open_def)
next
  case (Cons c cs)
  then show ?case by (cases k) (auto simp: first_open_Cons split: if_splits)
qed

lemma first_open_nth:
  "CHR ''{'' \<in> set s \<Longrightarrow> first_open s < length s \<and> s ! first_open s = CHR ''{''"
  by (induction s) (auto simp: first_open_Cons)

lemma dropWhile_first_open: "dropWhile (\<lambda>c. c \<noteq> CHR ''{'') s = drop (first_open s) s"
  unfolding first_open_def by (rule dropWhile_eq_drop)

lemma last_close_nth:
  assumes "CHR ''}'' \<in> set s"
  shows "last_close s < length s \<and> s ! last_close s = CHR ''}''"
proof -
  let ?P = "\<lambda>c. c \<noteq> CHR ''}''"
  let ?n = "length (takeWhile ?P (rev s))"
  from assms have n: "?n < length s" by (rule takeWhile_rev_less) simp
  then have "?n < length (rev s)" by simp
  then have "\<not> ?P (rev s ! ?n)" by (rule nth_length_takeWhile)
  with n show ?thesis by (simp add: last_close_def rev_nth)
qed

lemma last_close_greatest:
  assumes "last_close s < k" "k < length s"
  shows "s ! k \<noteq> CHR ''}''"
proof -
  let ?P = "\<lambda>c. c \<noteq> CHR ''}''"
  let ?n = "length (takeWhile ?P (rev s))"
  from assms have "length s - Suc k < ?n" by (simp add: last_close_def)
  then have "?P (rev s ! (length s - Suc k))" by (rule takeWhile_prefix_holds)
  with assms show ?thesis by (simp add: rev_nth)
qed

lemma last_close_ge:
  "j < length s \<Longrightarrow> s ! j = CHR ''}'' \<Longrightarrow> j \<le> last_close s"
  using last_close_greatest[of s j] by (cases "last_close s < j") auto

lemma has_span_iff [code]: "has_span s \<longleftrightarrow> CHR ''}'' \<in> set (drop (Suc (first_open s)) s)"
proof
  assume "has_span s"
  then obtain i j where ij: "i < j" "j < length s" "s ! i = CHR ''{''" "s ! j = CHR ''}''"
    by (auto simp: has_span_def)
  then have "first_open s \<le> i" by (intro first_open_le) auto
  with ij have "Suc (first_open s) \<le> j" by simp
  with ij have "drop (Suc (first_open s)) s ! (j - Suc (first_open s)) = CHR ''}''"
    "j - Suc (first_open s) < length (drop (Suc (first_open s)) s)" by auto
  then show "CHR ''}'' \<in> set (drop (Suc (first_open s)) s)" by (metis nth_mem)
next
  assume a: "CHR ''}'' \<in> set (drop (Suc (first_open s)) s)"
  then obtain k where k: "k < length (drop (Suc (first_open s)) s)"
    "drop (Suc (first_open s)) s ! k = CHR ''}''" by (auto simp: in_set_conv_nth)
  then have lt: "Suc (first_open s) + k < length s" and
    nth: "s ! (Suc (first_open s) + k) = CHR ''}''" by auto
  from lt have "first_open s < length s" by simp
  then have "\<not> s ! first_open s \<noteq> CHR ''{''"
    unfolding first_open_def by (rule nth_length_takeWhile)
  then have "s ! first_open s = CHR ''{''" by simp
  with lt nth show "has_span s"
    unfolding has_span_def by (intro exI[of _ "first_open s"] exI[of _ "Suc (first_open s) + k"]) simp
qed

lemma regex_match_None:
  assumes "\<not> has_span s"
  shows "regex_match s = None"
proof (cases "drop (first_open s) s")
  case Nil
  then show ?thesis by (simp add: regex_match_dropWhile dropWhile_first_open)
next
  case (Cons c cs)
  then have "cs = tl (drop (first_open s) s)" by simp
  then have "cs = drop (Suc (first_open s)) s" by (simp add: drop_Suc tl_drop)
  with assms have "CHR ''}'' \<notin> set cs" by (simp add: has_span_iff)
  with Cons show ?thesis
    by (simp add: regex_match_dropWhile dropWhile_first_open star_then_close_None)
qed

lemma regex_match_Some:
  assumes "has_span s"
  shows "regex_match s = Some (extraction_span s)"
proof -
  let ?i = "first_open s"
  let ?cs = "drop (Suc ?i) s"
  from assms have close: "CHR ''}'' \<in> set ?cs" by (simp add: has_span_iff)
  then have lt: "?i < length s" by (cases "?i < length s") auto
  then have d: "drop ?i s = s ! ?i # ?cs" by (simp add: Cons_nth_drop_Suc)
  have "s = take (Suc ?i) s @ ?cs" by simp
  then have "last_close s = length (take (Suc ?i) s) + last_close ?cs"
    using last_close_append[OF close, of "take (Suc ?i) s"] by simp
  with lt have lc: "last_close s = Suc ?i + last_close ?cs" by simp
  have "regex_match s = Some (s ! ?i # take (Suc (last_close ?cs)) ?cs)"
    by (simp add: regex_match_dropWhile dropWhile_first_open d star_then_close_Some[OF close])
  also have "s ! ?i # take (Suc (last_close ?cs)) ?cs = extraction_span s"
    by (simp add: extraction_span_def substring_def lc d)
  finally show ?thesis .
qed

section \<open>The two handlers, path by path\<close>

lemma JSON_parse_error: "JSON_parse s = Inl e \<Longrightarrow> e = SyntaxError"
  by (auto simp: JSON_parse_def split: option.splits prod.splits list.splits)

lemma has_spanI:
  "a < b \<Longrightarrow> b < length s \<Longrightarrow> s ! a = CHR ''{'' \<Longrightarrow> s ! b = CHR ''}'' \<Longrightarrow> has_span s"
  unfolding has_span_def by blast

lemma parsedData_invoice_direct:
  "JSON_parse s = Inr v \<Longrightarrow> parseInvoiceFromText_parsedData s = Inr v"
  by (simp add: parseInvoiceFromText_parsedData_def try_catch_def)

lemma parsedData_invoice_no_span:
  "JSON_parse s = Inl e \<Longrightarrow> \<not> has_span s \<Longrightarrow> parseInvoiceFromText_parsedData s = Inl NoJsonFound"
  by (simp add: parseInvoiceFromText_parsedData_def try_catch_def regex_match_None
      NoJsonFound_def)

lemma parsedData_invoice_span:
  "JSON_parse s = Inl e \<Longrightarrow> has_span s \<Longrightarrow>
   parseInvoiceFromText_parsedData s = JSON_parse (extraction_span s)"
  by (simp add: parseInvoiceFromText_parsedData_def try_catch_def regex_match_Some)

lemma parsedData_dashboard_direct:
  "JSON_parse s = Inr v \<Longrightarrow> getDashboardSummary_parsedData s = Inr v"
  by (simp add: getDashboardSummary_parsedData_def try_catch_def)

lemma parsedData_dashboard_no_span:
  "JSON_parse s = Inl e \<Longrightarrow> \<not> has_span s \<Longrightarrow>
   getDashboardSummary_parsedData s = Inr (insights ''Unable to generate insights from data.'')"
  by (simp add: getDashboardSummary_parsedData_def try_catch_def regex_match_None)

lemma parsedData_dashboard_span:
  "JSON_parse s = Inl e \<Longrightarrow> has_span s \<Longrightarrow>
   getDashboardSummary_parsedData s =
     try_catch (JSON_parse (extraction_span s))
       (\<lambda>jsonError. Inr (insights ''AI returned invalid JSON format. Please retry.''))"
  by (simp add: getDashboardSummary_parsedData_def try_catch_def regex_match_Some)

lemma respond_invoice:
  "parseInvoiceFromText s =
     (case parseInvoiceFromText_parsedData s of
        Inr v \<Rightarrow> Inr \<lparr>status = 200, body = Parsed v\<rparr>
      | Inl e \<Rightarrow> Inr \<lparr>status = 500, body = Failed ''Failed to parse invoice data from text.'' e\<rparr>)"
  by (simp add: parseInvoiceFromText_def try_catch_def split: sum.splits)

lemma respond_dashboard:
  "getDashboardSummary s =
     (case getDashboardSummary_parsedData s of
        Inr v \<Rightarrow> Inr \<lparr>status = 200, body = Parsed v\<rparr>
      | Inl e \<Rightarrow> Inr \<lparr>status = 500, body = Failed ''Failed to generate dashboard insights.'' e\<rparr>)"
  by (simp add: getDashboardSummary_def try_catch_def split: sum.splits)

lemma every_close_before_first_open_iff [code]:
  "every_close_before_first_open s \<longleftrightarrow> CHR ''}'' \<notin> set (drop (first_open s) s)"
proof
  assume h: "every_close_before_first_open s"
  show "CHR ''}'' \<notin> set (drop (first_open s) s)"
  proof
    assume "CHR ''}'' \<in> set (drop (first_open s) s)"
    then obtain k where "k < length (drop (first_open s) s)"
      "drop (first_open s) s ! k = CHR ''}''" by (auto simp: in_set_conv_nth)
    then have "first_open s + k < length s" "s ! (first_open s + k) = CHR ''}''" by auto
    with h have "first_open s + k < first_open s"
      unfolding every_close_before_first_open_def by blast
    then show False by simp
  qed
next
  assume h: "CHR ''}'' \<notin> set (drop (first_open s) s)"
  show "every_close_before_first_open s"
    unfolding every_close_before_first_open_def
  proof (intro allI impI)
    fix j
    assume j: "j < length s" "s ! j = CHR ''}''"
    show "j < first_open s"
    proof (rule ccontr)
      assume "\<not> j < first_open s"
      with j have "j - first_open s < length (drop (first_open s) s)"
        "drop (first_open s) s ! (j - first_open s) = CHR ''}''" by auto
      then have "CHR ''}'' \<in> set (drop (first_open s) s)" by (metis nth_mem)
      with h show False by simp
    qed
  qed
qed

lemma every_close_before_first_open_no_span:
  assumes "every_close_before_first_open s"
  shows "\<not> has_span s"
proof
  assume "has_span s"
  then obtain i j where ij: "i < j" "j < length s" "s ! i = CHR ''{''" "s ! j = CHR ''}''"
    by (auto simp: has_span_def)
  then have "first_open s \<le> i" by (intro first_open_le) auto
  moreover from assms ij have "j < first_open s"
    unfolding every_close_before_first_open_def by blast
  ultimately show False using ij by simp
qed

lemma failure_tags_differ: "NoJsonFound \<noteq> MalformedJson"
  by (simp add: NoJsonFound_def MalformedJson_def)

section \<open>The claims\<close>

text \<open>
  Claim C1. When the direct parse of the whole text fails and the text has a \<^verbatim>\<open>{\<close>
  followed later by a \<^verbatim>\<open>}\<close>, the match of the regular expression, which is what the
  second \<^verbatim>\<open>JSON.parse\<close> is given, is exactly the substring from the first \<^verbatim>\<open>{\<close> to
  the last \<^verbatim>\<open>}\<close>, both included, and the result of the recovery is the result of parsing
  that substring. The instance below is the text with two objects: the candidate runs from
  the first object to the second, it is not JSON, and neither object is picked.
\<close>

theorem recovery_candidate_is_first_open_to_last_close:
  assumes "JSON_parse s = Inl e"
    and "a < b" and "b < length s" and "s ! a = CHR ''{''" and "s ! b = CHR ''}''"
  shows "regex_match s = Some (substring s (first_open s) (Suc (last_close s)))
       \<and> first_open s \<le> a \<and> b \<le> last_close s \<and> last_close s < length s
       \<and> s ! first_open s = CHR ''{'' \<and> s ! last_close s = CHR ''}''
       \<and> (\<forall>k<first_open s. s ! k \<noteq> CHR ''{'')
       \<and> (\<forall>k. last_close s < k \<and> k < length s \<longrightarrow> s ! k \<noteq> CHR ''}'')
       \<and> parseInvoiceFromText_parsedData s
           = JSON_parse (substring s (first_open s) (Suc (last_close s)))
       \<and> getDashboardSummary_parsedData s
           = try_catch (JSON_parse (substring s (first_open s) (Suc (last_close s))))
               (\<lambda>jsonError. Inr (insights ''AI returned invalid JSON format. Please retry.''))"
proof -
  from assms have span: "has_span s" by (intro has_spanI[of a b])
  from assms have a: "a < length s" by simp
  with assms have open_in: "CHR ''{'' \<in> set s" by (metis nth_mem)
  from assms have close_in: "CHR ''}'' \<in> set s" by (metis nth_mem)
  have m: "regex_match s = Some (substring s (first_open s) (Suc (last_close s)))"
    using regex_match_Some[OF span] by (simp add: extraction_span_def)
  have 1: "first_open s \<le> a" using a assms(4) by (rule first_open_le)
  have 2: "b \<le> last_close s" using assms(3,5) by (rule last_close_ge)
  have 3: "\<forall>k<first_open s. s ! k \<noteq> CHR ''{''" by (simp add: first_open_least)
  have 4: "\<forall>k. last_close s < k \<and> k < length s \<longrightarrow> s ! k \<noteq> CHR ''}''"
    by (simp add: last_close_greatest)
  have 5: "parseInvoiceFromText_parsedData s
           = JSON_parse (substring s (first_open s) (Suc (last_close s)))"
    using parsedData_invoice_span[OF assms(1) span] by (simp add: extraction_span_def)
  have 6: "getDashboardSummary_parsedData s
           = try_catch (JSON_parse (substring s (first_open s) (Suc (last_close s))))
               (\<lambda>jsonError. Inr (insights ''AI returned invalid JSON format. Please retry.''))"
    using parsedData_dashboard_span[OF assms(1) span] by (simp add: extraction_span_def)
  from m 1 2 3 4 5 6 first_open_nth[OF open_in] last_close_nth[OF close_in]
  show ?thesis by blast
qed

theorem recovery_candidate_two_objects:
  \<open>JSON_parse ''prefix {"a":1} middle {"b":2} suffix'' = Inl SyntaxError
   \<and> ''prefix {"a":1} middle {"b":2} suffix'' ! 7 = CHR ''{''
   \<and> ''prefix {"a":1} middle {"b":2} suffix'' ! 13 = CHR ''}''
   \<and> regex_match ''prefix {"a":1} middle {"b":2} suffix'' = Some ''{"a":1} middle {"b":2}''
   \<and> parseInvoiceFromText_parsedData ''prefix {"a":1} middle {"b":2} suffix''
       = JSON_parse ''{"a":1} middle {"b":2}''
   \<and> parseInvoiceFromText_parsedData ''prefix {"a":1} middle {"b":2} suffix'' = Inl MalformedJson
   \<and> JSON_parse ''{"a":1}'' = Inr (JObject [(js ''a'', JNumber ''1'')])
   \<and> JSON_parse ''{"b":2}'' = Inr (JObject [(js ''b'', JNumber ''2'')])\<close>
proof -
  let ?s = \<open>''prefix {"a":1} middle {"b":2} suffix''\<close>
  have p: "JSON_parse ?s = Inl SyntaxError" by code_simp
  have a: "?s ! 7 = CHR ''{''" by code_simp
  have b: "?s ! 13 = CHR ''}''" by code_simp
  have l: "(7::nat) < 13" "13 < length ?s" by simp_all
  have sp: \<open>substring ?s (first_open ?s) (Suc (last_close ?s)) = ''{"a":1} middle {"b":2}''\<close>
    by code_simp
  have q: \<open>JSON_parse ''{"a":1} middle {"b":2}'' = Inl MalformedJson\<close> by code_simp
  have o1: \<open>JSON_parse ''{"a":1}'' = Inr (JObject [(js ''a'', JNumber ''1'')])\<close> by code_simp
  have o2: \<open>JSON_parse ''{"b":2}'' = Inr (JObject [(js ''b'', JNumber ''2'')])\<close> by code_simp
  from recovery_candidate_is_first_open_to_last_close[OF p l a b] p a b sp q o1 o2
  show ?thesis by simp
qed



text \<open>
  Claim C3. When the whole text is JSON, both handlers take the value of the direct parse:
  the \<^verbatim>\<open>try\<close> completes, and whatever the \<^verbatim>\<open>catch\<close> would do (\<open>recovery\<close>) plays no
  part in the result.
\<close>
theorem valid_json_is_returned_directly:
  assumes "JSON_parse s = Inr v"
  shows "parseInvoiceFromText_parsedData s = Inr v
       \<and> getDashboardSummary_parsedData s = Inr v
       \<and> try_catch (JSON_parse s) recovery = Inr v
       \<and> parseInvoiceFromText s = Inr \<lparr>status = 200, body = Parsed v\<rparr>
       \<and> getDashboardSummary s = Inr \<lparr>status = 200, body = Parsed v\<rparr>"
  using assms
  by (simp add: parsedData_invoice_direct parsedData_dashboard_direct respond_invoice
      respond_dashboard try_catch_def)

theorem valid_json_is_returned_directly_witness:
  \<open>JSON_parse ''{"a":[1,true,null]}''
     = Inr (JObject [(js ''a'', JArray [JNumber ''1'', JBool True, JNull])])
   \<and> parseInvoiceFromText_parsedData ''{"a":[1,true,null]}''
     = Inr (JObject [(js ''a'', JArray [JNumber ''1'', JBool True, JNull])])
   \<and> getDashboardSummary_parsedData ''{"a":[1,true,null]}''
     = Inr (JObject [(js ''a'', JArray [JNumber ''1'', JBool True, JNull])])\<close>
proof -
  have p: \<open>JSON_parse ''{"a":[1,true,null]}''
     = Inr (JObject [(js ''a'', JArray [JNumber ''1'', JBool True, JNull])])\<close>
    by code_simp
  from valid_json_is_returned_directly[OF p] p show ?thesis by simp
qed

text \<open>
  Claim C4. When the direct parse fails and no \<^verbatim>\<open>{\<close> of the text is followed later by a
  \<^verbatim>\<open>}\<close>, the outcome is the failure NoJsonFound: not a value, and not MalformedJson. The
  instances below are the empty text and a text without braces.
\<close>
theorem no_span_gives_NoJsonFound:
  assumes "JSON_parse s = Inl e" and "\<not> has_span s"
  shows "parseInvoiceFromText_parsedData s = Inl NoJsonFound
       \<and> parseInvoiceFromText_parsedData s \<noteq> Inl MalformedJson
       \<and> parseInvoiceFromText_parsedData s \<noteq> Inr v
       \<and> getDashboardSummary_parsedData s
           = Inr (insights ''Unable to generate insights from data.'')"
  using parsedData_invoice_no_span[OF assms] parsedData_dashboard_no_span[OF assms]
    failure_tags_differ
  by simp

theorem no_span_gives_NoJsonFound_witness:
  "JSON_parse '''' = Inl SyntaxError \<and> \<not> has_span ''''
   \<and> parseInvoiceFromText_parsedData '''' = Inl NoJsonFound
   \<and> JSON_parse ''no braces here'' = Inl SyntaxError \<and> \<not> has_span ''no braces here''
   \<and> parseInvoiceFromText_parsedData ''no braces here'' = Inl NoJsonFound"
proof -
  have p1: "JSON_parse '''' = Inl SyntaxError" by code_simp
  have n1: "\<not> has_span ''''" by code_simp
  have p2: "JSON_parse ''no braces here'' = Inl SyntaxError" by code_simp
  have n2: "\<not> has_span ''no braces here''" by code_simp
  from no_span_gives_NoJsonFound[OF p1 n1] no_span_gives_NoJsonFound[OF p2 n2] p1 n1 p2 n2
  show ?thesis by simp
qed

text \<open>
  Claim C5. When the direct parse fails and the span from the first \<^verbatim>\<open>{\<close> to the last
  \<^verbatim>\<open>}\<close> exists but is not JSON, the outcome is the failure MalformedJson, and no value
  at all is produced from the span.
\<close>
theorem malformed_span_gives_MalformedJson:
  assumes "JSON_parse s = Inl e" and "has_span s"
    and "JSON_parse (extraction_span s) = Inl e'"
  shows "parseInvoiceFromText_parsedData s = Inl MalformedJson
       \<and> parseInvoiceFromText_parsedData s \<noteq> Inr v
       \<and> getDashboardSummary_parsedData s
           = Inr (insights ''AI returned invalid JSON format. Please retry.'')"
proof -
  from assms(3) have "e' = MalformedJson" by (simp add: JSON_parse_error MalformedJson_def)
  with assms parsedData_invoice_span[OF assms(1,2)] parsedData_dashboard_span[OF assms(1,2)]
  show ?thesis by (simp add: try_catch_def)
qed

theorem malformed_span_gives_MalformedJson_witness:
  \<open>JSON_parse ''{"a": }'' = Inl SyntaxError \<and> has_span ''{"a": }''
   \<and> extraction_span ''{"a": }'' = ''{"a": }''
   \<and> parseInvoiceFromText_parsedData ''{"a": }'' = Inl MalformedJson\<close>
proof -
  have p: \<open>JSON_parse ''{"a": }'' = Inl SyntaxError\<close> by code_simp
  have h: \<open>has_span ''{"a": }''\<close> by code_simp
  have sp: \<open>extraction_span ''{"a": }'' = ''{"a": }''\<close> by code_simp
  from p sp have q: \<open>JSON_parse (extraction_span ''{"a": }'') = Inl SyntaxError\<close> by simp
  from malformed_span_gives_MalformedJson[OF p h q] p h sp show ?thesis by simp
qed

text \<open>
  Claim C6. The text \<^verbatim>\<open>Sure! {"a":1} Hope that helps\<close> is not JSON as a whole, the
  regular expression matches the object inside it, and the outcome is that object.
\<close>
theorem prose_wrapped_object_is_recovered:
  \<open>JSON_parse ''Sure! {"a":1} Hope that helps'' = Inl SyntaxError
   \<and> regex_match ''Sure! {"a":1} Hope that helps'' = Some ''{"a":1}''
   \<and> parseInvoiceFromText_parsedData ''Sure! {"a":1} Hope that helps''
       = Inr (JObject [(js ''a'', JNumber ''1'')])
   \<and> parseInvoiceFromText ''Sure! {"a":1} Hope that helps''
       = Inr \<lparr>status = 200, body = Parsed (JObject [(js ''a'', JNumber ''1'')])\<rparr>\<close>
  by code_simp

text \<open>
  Claim C8. The recovery looks for braces only. A text that is not JSON as a whole and has no
  \<^verbatim>\<open>{\<close> followed later by a \<^verbatim>\<open>}\<close> gives NoJsonFound even when a part of it
  (\<open>u\<close>) is a JSON value that is not an object; that value is not recovered.
\<close>
theorem embedded_non_object_is_not_recovered:
  assumes "JSON_parse s = Inl e" and "\<not> has_span s"
    and "s = before @ u @ after" and "JSON_parse u = Inr v" and "\<forall>ps. v \<noteq> JObject ps"
  shows "regex_match s = None
       \<and> parseInvoiceFromText_parsedData s = Inl NoJsonFound
       \<and> parseInvoiceFromText_parsedData s \<noteq> Inr v
       \<and> getDashboardSummary_parsedData s
           = Inr (insights ''Unable to generate insights from data.'')"
  using parsedData_invoice_no_span[OF assms(1,2)] parsedData_dashboard_no_span[OF assms(1,2)]
    regex_match_None[OF assms(2)]
  by simp

theorem embedded_non_object_is_not_recovered_witness:
  "JSON_parse ''here: [1,2]'' = Inl SyntaxError \<and> \<not> has_span ''here: [1,2]''
   \<and> ''here: [1,2]'' = ''here: '' @ ''[1,2]'' @ []
   \<and> JSON_parse ''[1,2]'' = Inr (JArray [JNumber ''1'', JNumber ''2''])
   \<and> parseInvoiceFromText_parsedData ''here: [1,2]'' = Inl NoJsonFound"
proof -
  have p: "JSON_parse ''here: [1,2]'' = Inl SyntaxError" by code_simp
  have n: "\<not> has_span ''here: [1,2]''" by code_simp
  have c: "''here: [1,2]'' = ''here: '' @ ''[1,2]'' @ []" by simp
  have q: "JSON_parse ''[1,2]'' = Inr (JArray [JNumber ''1'', JNumber ''2''])" by code_simp
  have a: "\<forall>ps. JArray [JNumber ''1'', JNumber ''2''] \<noteq> JObject ps" by simp
  from embedded_non_object_is_not_recovered[OF p n c q a]
  have r: "parseInvoiceFromText_parsedData ''here: [1,2]'' = Inl NoJsonFound" by simp
  from p n q r show ?thesis by simp
qed

text \<open>
  Claim C9 as it is stated, for every text in which every \<^verbatim>\<open>}\<close> occurs strictly
  before the first \<^verbatim>\<open>{\<close>, fails: the four characters \<^verbatim>\<open>"}{"\<close> are a JSON string,
  so the direct parse succeeds and the recovery is never reached.
\<close>
theorem close_before_open_counterexample:
  \<open>every_close_before_first_open ''"}{"''
   \<and> parseInvoiceFromText_parsedData ''"}{"'' = Inr (JString (js ''}{''))
   \<and> parseInvoiceFromText_parsedData ''"}{"'' \<noteq> Inl NoJsonFound\<close>
  by code_simp

text \<open>
  Claim C9, amended. For every text whose direct parse fails and in which every
  \<^verbatim>\<open>}\<close> occurs strictly before the first \<^verbatim>\<open>{\<close>, the regular expression has no
  match and the outcome is NoJsonFound: both braces being there is not enough.
\<close>
theorem close_before_open_gives_NoJsonFound:
  assumes "JSON_parse s = Inl e" and "every_close_before_first_open s"
  shows "regex_match s = None \<and> parseInvoiceFromText_parsedData s = Inl NoJsonFound"
proof -
  from assms(2) have n: "\<not> has_span s" by (rule every_close_before_first_open_no_span)
  from regex_match_None[OF n] parsedData_invoice_no_span[OF assms(1) n] show ?thesis by simp
qed

theorem close_before_open_gives_NoJsonFound_witness:
  "JSON_parse ''} text {'' = Inl SyntaxError \<and> every_close_before_first_open ''} text {''
   \<and> regex_match ''} text {'' = None
   \<and> parseInvoiceFromText_parsedData ''} text {'' = Inl NoJsonFound"
proof -
  have p: "JSON_parse ''} text {'' = Inl SyntaxError" by code_simp
  have h: "every_close_before_first_open ''} text {''" by code_simp
  from close_before_open_gives_NoJsonFound[OF p h] p h show ?thesis by simp
qed

text \<open>
  Claim C10. In \<^verbatim>\<open>getDashboardSummary\<close>, when the direct parse fails and the span is
  absent or is not JSON, the response is 200 with a fixed placeholder, an object whose one
  property \<^verbatim>\<open>insights\<close> is an array of one fixed string: the object of line 198 when the
  span is absent, that of line 194 when it is malformed. It is never the 500 of the outer
  \<^verbatim>\<open>catch\<close>.
\<close>

theorem dashboard_absorbs_parse_failures:
  assumes "JSON_parse t = Inl e"
    and "has_span t \<Longrightarrow> JSON_parse (extraction_span t) = Inl e'"
  shows "getDashboardSummary t
           = Inr \<lparr>status = 200,
                  body = Parsed
                    (if has_span t
                     then JObject [(map of_char ''insights'',
                            JArray [JString (map of_char
                              ''AI returned invalid JSON format. Please retry.'')])]
                     else JObject [(map of_char ''insights'',
                            JArray [JString (map of_char
                              ''Unable to generate insights from data.'')])])\<rparr>"
proof (cases "has_span t")
  case True
  with assms parsedData_dashboard_span[OF assms(1) True] show ?thesis
    by (simp add: respond_dashboard try_catch_def insights_def js_def)
next
  case False
  with parsedData_dashboard_no_span[OF assms(1) False] show ?thesis
    by (simp add: respond_dashboard insights_def js_def)
qed

theorem dashboard_absorbs_parse_failures_witness:
  \<open>JSON_parse ''I cannot help with that.'' = Inl SyntaxError
   \<and> \<not> has_span ''I cannot help with that.''
   \<and> getDashboardSummary ''I cannot help with that.''
       = Inr \<lparr>status = 200,
              body = Parsed (JObject [(map of_char ''insights'',
                       JArray [JString (map of_char
                         ''Unable to generate insights from data.'')])])\<rparr>
   \<and> JSON_parse ''{"insights": ["a", ]}'' = Inl SyntaxError
   \<and> has_span ''{"insights": ["a", ]}''
   \<and> JSON_parse (extraction_span ''{"insights": ["a", ]}'') = Inl SyntaxError
   \<and> getDashboardSummary ''{"insights": ["a", ]}''
       = Inr \<lparr>status = 200,
              body = Parsed (JObject [(map of_char ''insights'',
                       JArray [JString (map of_char
                         ''AI returned invalid JSON format. Please retry.'')])])\<rparr>\<close>
proof -
  have p1: "JSON_parse ''I cannot help with that.'' = Inl SyntaxError" by code_simp
  have n1: "\<not> has_span ''I cannot help with that.''" by code_simp
  have p2: \<open>JSON_parse ''{"insights": ["a", ]}'' = Inl SyntaxError\<close> by code_simp
  have h2: \<open>has_span ''{"insights": ["a", ]}''\<close> by code_simp
  have q2: \<open>JSON_parse (extraction_span ''{"insights": ["a", ]}'') = Inl SyntaxError\<close>
    by code_simp
  have r1: "getDashboardSummary ''I cannot help with that.''
       = Inr \<lparr>status = 200,
              body = Parsed (JObject [(map of_char ''insights'',
                       JArray [JString (map of_char
                         ''Unable to generate insights from data.'')])])\<rparr>"
    using dashboard_absorbs_parse_failures[OF p1, of SyntaxError] n1 by simp
  have r2: \<open>getDashboardSummary ''{"insights": ["a", ]}''
       = Inr \<lparr>status = 200,
              body = Parsed (JObject [(map of_char ''insights'',
                       JArray [JString (map of_char
                         ''AI returned invalid JSON format. Please retry.'')])])\<rparr>\<close>
    using dashboard_absorbs_parse_failures[OF p2 q2] h2 by simp
  from p1 n1 p2 h2 q2 r1 r2 show ?thesis by blast
qed

end
